theory Spec2Isabelle
  imports Main "HOL-Library.Sublist"
begin

section \<open>JavaScript and lodash primitives used by the solvers\<close>

text \<open>
  A JavaScript string is modelled as a \<open>string\<close>, one \<open>char\<close> per code unit; the model
  covers the code units below 256. A value that may be \<open>undefined\<close> is an \<open>option\<close>,
  and the only exception the solvers can raise, reading a property of \<open>undefined\<close>,
  is the error value \<open>TypeError\<close>.
\<close>

datatype error = TypeError

abbreviation LF :: char where "LF \<equiv> CHR 0x0A"
abbreviation CR :: char where "CR \<equiv> CHR 0x0D"

text \<open>\<open>s.split(c)\<close> for a one-character separator: never empty, keeps empty fields.\<close>

fun js_split :: "char \<Rightarrow> string \<Rightarrow> string list" where
  "js_split c [] = [[]]"
| "js_split c (x # xs) =
     (if x = c then [] # js_split c xs
      else (case js_split c xs of [] \<Rightarrow> [[x]] | l # ls \<Rightarrow> (x # l) # ls))"

text \<open>\<open>a[i]\<close> on an array or a string: \<open>undefined\<close> outside the bounds.\<close>

definition js_index :: "'a list \<Rightarrow> int \<Rightarrow> 'a option" where
  "js_index xs i = (if 0 \<le> i \<and> i < int (length xs) then Some (xs ! nat i) else None)"

text \<open>\<open>s.slice(a, b)\<close>: a negative bound counts from the end, both are clamped.\<close>

definition js_slice :: "string \<Rightarrow> int \<Rightarrow> int \<Rightarrow> string" where
  "js_slice s a b =
     (let len = int (length s);
          from = (if a < 0 then max (len + a) 0 else min a len);
          to = (if b < 0 then max (len + b) 0 else min b len)
      in take (nat (to - from)) (drop (nat from) s))"

text \<open>
  \<open>a.join('')\<close> on an array of one-character strings and \<open>undefined\<close>: an \<open>undefined\<close>
  element contributes the empty string.
\<close>

fun join_empty :: "char option list \<Rightarrow> string" where
  "join_empty [] = []"
| "join_empty (None # cs) = join_empty cs"
| "join_empty (Some c # cs) = c # join_empty cs"

text \<open>\<open>a.join('\n')\<close> on an array of strings.\<close>

fun join_lines :: "string list \<Rightarrow> string" where
  "join_lines [] = []"
| "join_lines [s] = s"
| "join_lines (s # t # ts) = s @ LF # join_lines (t # ts)"

text \<open>
  \<open>_.range(end)\<close> with one argument: from 0 up to \<open>end\<close> exclusive, and with step \<open>-1\<close>
  down to \<open>end\<close> exclusive when \<open>end\<close> is negative, so \<open>_.range(-1)\<close> is \<open>[0]\<close>.
  \<open>_.rangeRight\<close> fills the same values from the right.
\<close>

definition lodash_range :: "int \<Rightarrow> int list" where
  "lodash_range e = (if 0 < e then [0..e - 1] else map uminus [0..- e - 1])"

definition lodash_rangeRight :: "int \<Rightarrow> int list" where
  "lodash_rangeRight e = rev (lodash_range e)"

text \<open>
  \<open>_.zip(...arrays)\<close>: as many groups as the longest array has elements, group \<open>index\<close>
  holding \<open>array[index]\<close> of every array, \<open>undefined\<close> where an array is shorter.
\<close>

definition lodash_zip :: "'a list list \<Rightarrow> 'a option list list" where
  "lodash_zip arrays =
     map (\<lambda>index. map (\<lambda>group. js_index group (int index)) arrays)
       [0..<foldr (\<lambda>group. max (length group)) arrays 0]"

text \<open>The destructuring parameter \<open>([x, y])\<close>: the first two elements, \<open>undefined\<close> if absent.\<close>

fun destructure2 :: "'a option list \<Rightarrow> 'a option \<times> 'a option" where
  "destructure2 [] = (None, None)"
| "destructure2 [a] = (a, None)"
| "destructure2 (a # b # _) = (a, b)"

subsection \<open>The regular expressions of the source\<close>

text \<open>
  The regular expressions of the source are sequences of literal characters and \<open>.\<close>,
  with no flag but \<open>g\<close>. Without the \<open>s\<close> flag, \<open>.\<close> matches every character that is
  not a line terminator (LF, CR, U+2028, U+2029; the last two are beyond the code units
  of the model).
\<close>

datatype atom = Lit char | Dot

type_synonym regex = "atom list"

fun atom_ok :: "atom \<Rightarrow> char \<Rightarrow> bool" where
  "atom_ok (Lit a) c = (c = a)"
| "atom_ok Dot c = (c \<noteq> LF \<and> c \<noteq> CR)"

text \<open>Does the expression match at the start of the string?\<close>

fun match_here :: "regex \<Rightarrow> string \<Rightarrow> bool" where
  "match_here [] s = True"
| "match_here (a # as) [] = False"
| "match_here (a # as) (c # cs) = (atom_ok a c \<and> match_here as cs)"

text \<open>
  The length of \<open>s.match(/re/g) || []\<close>: the matches found from left to right, the search
  resuming where the last match ended (one character further after an empty match).
\<close>

fun match_g :: "regex \<Rightarrow> string \<Rightarrow> nat" where
  "match_g re [] = (if re = [] then 1 else 0)"
| "match_g re (c # cs) =
     (if match_here re (c # cs) then Suc (match_g re (drop (length re - 1) cs))
      else match_g re cs)"

text \<open>The truth value of \<open>s.match(/re/)\<close>: is there a match at some position?\<close>

fun regex_test :: "regex \<Rightarrow> string \<Rightarrow> bool" where
  "regex_test re [] = match_here re []"
| "regex_test re (c # cs) = (match_here re (c # cs) \<or> regex_test re cs)"

section \<open>Day 4: the word search\<close>

definition example :: string where
  "example = ''MMMSXXMASM\<newline>MSAMXMSMSA\<newline>AMXSXMAAMM\<newline>MSAMASMSMX\<newline>XMASAMXAMM\<newline>XXAMMXXAMA\<newline>SMSMSASXSS\<newline>SAXAMASAAA\<newline>MAMMMXMMMM\<newline>MXMXAXMASX''"

subsection \<open>Line extraction\<close>

text \<open>\<open>text\<close> is \<open>input.split('\n')\<close>; the other three are computed from it.\<close>

definition transposed :: "string list \<Rightarrow> string list" where
  "transposed text = map join_empty (lodash_zip text)"

text \<open>The predicate of the \<open>filter\<close> in \<open>diag1\<close> and \<open>diag2\<close>; a comparison with \<open>undefined\<close> is false.\<close>

definition in_grid :: "string list \<Rightarrow> int option list \<Rightarrow> bool" where
  "in_grid text p =
     (case destructure2 p of
        (Some x, Some y) \<Rightarrow> 0 \<le> x \<and> x < int (length text) \<and> 0 \<le> y \<and> y < int (length text)
      | _ \<Rightarrow> False)"

text \<open>
  \<open>text[x][y]\<close> and \<open>text[text.length - x - 1][y]\<close>. After the filter \<open>text[x]\<close> is a row
  (lemma \<open>in_grid_row\<close> below), so the look-up cannot raise; the character is
  \<open>undefined\<close> when the row is shorter than \<open>y\<close>.
\<close>

definition diag1_at :: "string list \<Rightarrow> int option list \<Rightarrow> char option" where
  "diag1_at text p =
     (case destructure2 p of
        (Some x, Some y) \<Rightarrow> (case js_index text x of Some row \<Rightarrow> js_index row y | None \<Rightarrow> None)
      | _ \<Rightarrow> None)"

definition diag2_at :: "string list \<Rightarrow> int option list \<Rightarrow> char option" where
  "diag2_at text p =
     (case destructure2 p of
        (Some x, Some y) \<Rightarrow>
          (case js_index text (int (length text) - x - 1) of
             Some row \<Rightarrow> js_index row y | None \<Rightarrow> None)
      | _ \<Rightarrow> None)"

text \<open>
  \<open>new Array(text.length*2-1).fill().map((e, i) => ...)\<close>; \<open>text\<close> comes from \<open>split\<close> and
  has at least one element, so the length of the array is not negative.
\<close>

definition diag1 :: "string list \<Rightarrow> string list" where
  "diag1 text =
     map (\<lambda>i. join_empty (map (diag1_at text) (filter (in_grid text)
            (lodash_zip [lodash_range (int i + 1), lodash_rangeRight (int i + 1)]))))
       [0..<length text * 2 - 1]"

definition diag2 :: "string list \<Rightarrow> string list" where
  "diag2 text =
     map (\<lambda>i. join_empty (map (diag2_at text) (filter (in_grid text)
            (lodash_zip [lodash_range (int i + 1), lodash_rangeRight (int i + 1)]))))
       [0..<length text * 2 - 1]"

subsection \<open>Pattern counting\<close>

definition XMAS :: regex where
  "XMAS = map Lit ''XMAS''"

definition SAMX :: regex where
  "SAMX = map Lit ''SAMX''"

text \<open>The amount one line adds to \<open>count\<close>.\<close>

definition line_count :: "string \<Rightarrow> nat" where
  "line_count line = match_g XMAS line + match_g SAMX line"

definition part1Solution_day4 :: "string \<Rightarrow> nat" where
  "part1Solution_day4 input =
     (let text = js_split LF input
      in foldl (\<lambda>count line. count + line_count line) 0
           (concat [text, transposed text, diag1 text, diag2 text]))"

subsection \<open>The 3x3 windows of part 2\<close>

definition permutations :: "regex list" where
  "permutations =
     [[Lit CHR ''M'', Dot, Lit CHR ''S'', Lit LF, Dot, Lit CHR ''A'', Dot, Lit LF,
       Lit CHR ''M'', Dot, Lit CHR ''S''],
      [Lit CHR ''M'', Dot, Lit CHR ''M'', Lit LF, Dot, Lit CHR ''A'', Dot, Lit LF,
       Lit CHR ''S'', Dot, Lit CHR ''S''],
      [Lit CHR ''S'', Dot, Lit CHR ''M'', Lit LF, Dot, Lit CHR ''A'', Dot, Lit LF,
       Lit CHR ''S'', Dot, Lit CHR ''M''],
      [Lit CHR ''S'', Dot, Lit CHR ''S'', Lit LF, Dot, Lit CHR ''A'', Dot, Lit LF,
       Lit CHR ''M'', Dot, Lit CHR ''M'']]"

text \<open>
  \<open>[0, 1, 2].map(i => text[x + i].slice(y, y + 3)).join('\n')\<close>: the call of \<open>slice\<close> on
  a row that does not exist raises.
\<close>

definition grid :: "string list \<Rightarrow> int \<Rightarrow> int \<Rightarrow> error + string" where
  "grid text x y =
     (case js_index text (x + 0) of None \<Rightarrow> Inl TypeError | Some r0 \<Rightarrow>
      (case js_index text (x + 1) of None \<Rightarrow> Inl TypeError | Some r1 \<Rightarrow>
       (case js_index text (x + 2) of None \<Rightarrow> Inl TypeError | Some r2 \<Rightarrow>
          Inr (join_lines [js_slice r0 y (y + 3), js_slice r1 y (y + 3), js_slice r2 y (y + 3)]))))"

text \<open>One run of the inner loop body on the running \<open>count\<close>; an exception ends the run.\<close>

definition window_step :: "string list \<Rightarrow> error + nat \<Rightarrow> int \<times> int \<Rightarrow> error + nat" where
  "window_step text acc p =
     (case acc of Inl e \<Rightarrow> Inl e | Inr count \<Rightarrow>
       (case grid text (fst p) (snd p) of Inl e \<Rightarrow> Inl e | Inr g \<Rightarrow>
          Inr (if list_ex (\<lambda>regex. regex_test regex g) permutations then count + 1 else count)))"

definition part2Solution_day4 :: "string \<Rightarrow> error + nat" where
  "part2Solution_day4 input =
     (let text = js_split LF input
      in foldl (window_step text) (Inr 0)
           (concat (map (\<lambda>x. map (\<lambda>y. (x, y)) (lodash_range (int (length text) - 2)))
                      (lodash_range (int (length text) - 2)))))"

subsection \<open>What the specification counts\<close>

text \<open>
  The occurrences of a pattern in a line, overlapping ones included: the positions at
  which the pattern can be read in the line.
\<close>

definition occurrences :: "string \<Rightarrow> string \<Rightarrow> nat" where
  "occurrences P line =
     length (filter (\<lambda>i. take (length P) (drop i line) = P) [0..<Suc (length line)])"

text \<open>
  The four templates of the specification, as the characters of the top-left, top-right,
  bottom-left and bottom-right corner; the centre is \<open>A\<close> in all of them.
\<close>

definition templates :: "(char \<times> char \<times> char \<times> char) list" where
  "templates =
     [(CHR ''M'', CHR ''S'', CHR ''M'', CHR ''S''),
      (CHR ''M'', CHR ''M'', CHR ''S'', CHR ''S''),
      (CHR ''S'', CHR ''M'', CHR ''S'', CHR ''M''),
      (CHR ''S'', CHR ''S'', CHR ''M'', CHR ''M'')]"

text \<open>The window with top-left corner in row \<open>x\<close>, column \<open>y\<close> agrees with a template.\<close>

definition corners_match :: "string list \<Rightarrow> nat \<times> nat \<Rightarrow> bool" where
  "corners_match text p =
     (case p of (x, y) \<Rightarrow>
        list_ex (\<lambda>(tl, tr, bl, br).
            text ! x ! y = tl \<and> text ! x ! (y + 2) = tr \<and>
            text ! (x + 1) ! (y + 1) = CHR ''A'' \<and>
            text ! (x + 2) ! y = bl \<and> text ! (x + 2) ! (y + 2) = br)
          templates)"

text \<open>None of the four edge midpoints of the window is a line terminator.\<close>

definition edges_plain :: "string list \<Rightarrow> nat \<times> nat \<Rightarrow> bool" where
  "edges_plain text p =
     (case p of (x, y) \<Rightarrow>
        list_all (\<lambda>c. c \<noteq> LF \<and> c \<noteq> CR)
          [text ! x ! (y + 1), text ! (x + 1) ! y, text ! (x + 1) ! (y + 2),
           text ! (x + 2) ! (y + 1)])"

text \<open>The top-left corners of the 3x3 windows of an \<open>N\<close> x \<open>N\<close> grid.\<close>

definition window_positions :: "nat \<Rightarrow> (nat \<times> nat) list" where
  "window_positions N = List.product [0..<N - 2] [0..<N - 2]"

text \<open>The count with edge midpoints that match any character.\<close>

definition wildcard_count :: "string list \<Rightarrow> nat" where
  "wildcard_count text =
     length (filter (corners_match text) (window_positions (length text)))"

text \<open>The count with edge midpoints that match any character but a line terminator.\<close>

definition template_count :: "string list \<Rightarrow> nat" where
  "template_count text =
     length (filter (\<lambda>p. corners_match text p \<and> edges_plain text p)
       (window_positions (length text)))"

text \<open>The string that the loop body builds for a window inside a square grid.\<close>

definition window_string :: "string list \<Rightarrow> nat \<times> nat \<Rightarrow> string" where
  "window_string rows p =
     (case p of (x, y) \<Rightarrow>
       [rows ! x ! y, rows ! x ! (y + 1), rows ! x ! (y + 2), LF,
        rows ! (x + 1) ! y, rows ! (x + 1) ! (y + 1), rows ! (x + 1) ! (y + 2), LF,
        rows ! (x + 2) ! y, rows ! (x + 2) ! (y + 1), rows ! (x + 2) ! (y + 2)])"

text \<open>A 3x3 grid with a carriage return at the midpoint of its top edge.\<close>

definition cr_grid :: string where
  "cr_grid = CHR ''M'' # CR # ''S\<newline>.A.\<newline>M.S''"

text \<open>
  A line holds \<open>n\<close> matches of an expression that do not overlap: it is some text, a match,
  and a line that holds \<open>n - 1\<close> of them.
\<close>

inductive disjoint_matches :: "regex \<Rightarrow> string \<Rightarrow> nat \<Rightarrow> bool" where
  none: "disjoint_matches re s 0"
| more: "disjoint_matches re s n \<Longrightarrow> list_all2 atom_ok re w \<Longrightarrow>
         disjoint_matches re (a @ w @ s) (Suc n)"

section \<open>Day 5: the page orders\<close>

text \<open>
  \<open>Number\<close>, the conversion of a field to a number, is a parameter of the model, and
  \<open>'n\<close> is the type of its results: numbers as object keys and \<open>includes\<close> compare them.
  The key of a property is an \<open>option\<close>, \<open>None\<close> for the key \<open>undefined\<close>.
\<close>

type_synonym 'n rules = "'n option \<Rightarrow> 'n option list option"

text \<open>\<open>(obj, [page1, page2]) => ({...obj, [page1]: [...(obj[page1] || []), page2]})\<close>\<close>

definition add_rule :: "'n rules \<Rightarrow> 'n list \<Rightarrow> 'n rules" where
  "add_rule obj fields =
     (case destructure2 (map Some fields) of
        (page1, page2) \<Rightarrow>
          obj(page1 \<mapsto> (case obj page1 of None \<Rightarrow> [] | Some after \<Rightarrow> after) @ [page2]))"

definition rules :: "(string \<Rightarrow> 'n) \<Rightarrow> string \<Rightarrow> 'n rules" where
  "rules Number rawRules =
     foldl add_rule Map.empty
       (map (\<lambda>x. map Number (js_split CHR ''|'' x)) (js_split LF rawRules))"

definition orders :: "(string \<Rightarrow> 'n) \<Rightarrow> string \<Rightarrow> 'n list list" where
  "orders Number rawOrders =
     map (\<lambda>x. map Number (js_split CHR '','' x)) (js_split LF rawOrders)"

text \<open>
  The filter of \<open>part1Solution\<close>:
  \<open>pages.slice(0,-1).every((page, i) => !rules[pages[i+1]] || !rules[pages[i+1]].includes(page))\<close>.
  An array is truthy, so \<open>!rules[k]\<close> holds when the key is absent.
\<close>

definition in_order :: "'n rules \<Rightarrow> 'n list \<Rightarrow> bool" where
  "in_order rs pages =
     list_all (\<lambda>(page, i).
         (case rs (js_index pages (int i + 1)) of
            None \<Rightarrow> True
          | Some after \<Rightarrow> Some page \<notin> set after))
       (zip (butlast pages) [0..<length (butlast pages)])"

text \<open>The filter of \<open>part2Solution\<close>, the same test negated.\<close>

definition out_of_order :: "'n rules \<Rightarrow> 'n list \<Rightarrow> bool" where
  "out_of_order rs pages =
     (\<not> list_all (\<lambda>(page, i).
         (case rs (js_index pages (int i + 1)) of
            None \<Rightarrow> True
          | Some after \<Rightarrow> Some page \<notin> set after))
       (zip (butlast pages) [0..<length (butlast pages)]))"

text \<open>
  \<open>pages[Math.floor(pages.length / 2)]\<close>; every list of \<open>orders\<close> has an element, so the
  index is within the list.
\<close>

definition middle :: "'n list \<Rightarrow> 'n" where
  "middle pages = pages ! (length pages div 2)"

definition part1Solution_day5 :: "(string \<Rightarrow> 'n::{zero,plus}) \<Rightarrow> string \<Rightarrow> string \<Rightarrow> 'n" where
  "part1Solution_day5 Number rawRules rawOrders =
     foldl (\<lambda>a b. a + b) 0
       (map middle (filter (in_order (rules Number rawRules)) (orders Number rawOrders)))"

text \<open>The comparison function of the sort in \<open>part2Solution\<close>.\<close>

definition compare_pages :: "'n rules \<Rightarrow> 'n \<Rightarrow> 'n \<Rightarrow> int" where
  "compare_pages rs a b =
     (case rs (Some b) of
        None \<Rightarrow> 1
      | Some after \<Rightarrow> if Some a \<notin> set after then 1 else - 1)"

text \<open>
  \<open>Array.prototype.sort\<close> is a parameter as well: the comparison function is not a
  consistent ordering, and the order that results is left to the engine.
\<close>

definition part2Solution_day5 ::
  "(string \<Rightarrow> 'n::{zero,plus}) \<Rightarrow> (('n \<Rightarrow> 'n \<Rightarrow> int) \<Rightarrow> 'n list \<Rightarrow> 'n list) \<Rightarrow> string \<Rightarrow> string \<Rightarrow> 'n" where
  "part2Solution_day5 Number js_sort rawRules rawOrders =
     foldl (\<lambda>a b. a + b) 0
       (map middle (map (\<lambda>pages. js_sort (compare_pages (rules Number rawRules)) pages)
          (filter (out_of_order (rules Number rawRules)) (orders Number rawOrders))))"

text \<open>
  A page must not come before a page that the rules put before it: position \<open>i\<close> is
  before position \<open>j\<close>, and the rules list the page at \<open>i\<close> among those that the page
  at \<open>j\<close> precedes.
\<close>

definition violation :: "'n rules \<Rightarrow> 'n list \<Rightarrow> nat \<Rightarrow> nat \<Rightarrow> bool" where
  "violation rs pages i j =
     (i < j \<and> j < length pages \<and>
      (case rs (Some (pages ! j)) of
         None \<Rightarrow> False
       | Some after \<Rightarrow> Some (pages ! i) \<in> set after))"

text \<open>
  The number a non-empty string of decimal digits denotes, which is the value of
  \<open>Number\<close> on it; the examples below are run with it.
\<close>

definition decimal :: "string \<Rightarrow> nat" where
  "decimal s = foldl (\<lambda>n c. 10 * n + (of_char c - 48)) 0 s"

section \<open>Properties of the primitives\<close>

lemma js_split_not_Nil: "js_split c s \<noteq> []"
  by (induction s) (auto split: list.splits)

lemma in_grid_row:
  assumes "in_grid rows p" and "destructure2 p = (Some x, Some y)"
  shows "js_index rows x \<noteq> None \<and> js_index rows (int (length rows) - x - 1) \<noteq> None"
  using assms by (simp add: in_grid_def js_index_def)

lemma lodash_range_1: "lodash_range 1 = [0]"
  by (simp add: lodash_range_def)

lemma lodash_range_m1: "lodash_range (- 1) = [0]"
  by (simp add: lodash_range_def)

lemma max_length_uniform:
  "\<forall>row\<in>set rows. length row = N \<Longrightarrow>
   foldr (\<lambda>group. max (length group)) rows 0 = (if rows = [] then 0 else N)"
  by (induction rows) auto

lemma join_empty_column:
  "\<forall>row\<in>set rows. j < length row \<Longrightarrow>
   join_empty (map (\<lambda>group. js_index group (int j)) rows) = map (\<lambda>row. row ! j) rows"
  by (induction rows) (auto simp: js_index_def)

lemma transposed_square:
  assumes "\<forall>row\<in>set rows. length row = length rows"
  shows "transposed rows = map (\<lambda>j. map (\<lambda>row. row ! j) rows) [0..<length rows]"
proof (cases "rows = []")
  case True
  then show ?thesis by (simp add: transposed_def lodash_zip_def)
next
  case False
  with assms have "foldr (\<lambda>group. max (length group)) rows 0 = length rows"
    by (simp add: max_length_uniform [where N = "length rows"])
  moreover have "join_empty (map (\<lambda>group. js_index group (int j)) rows) = map (\<lambda>row. row ! j) rows"
    if "j < length rows" for j
    using that assms by (simp add: join_empty_column)
  ultimately show ?thesis
    by (simp add: transposed_def lodash_zip_def)
qed

lemma length_diag1: "length (diag1 rows) = length rows * 2 - 1"
  by (simp add: diag1_def)

lemma length_diag2: "length (diag2 rows) = length rows * 2 - 1"
  by (simp add: diag2_def)

section \<open>Properties of the regular expressions\<close>

lemma match_here_iff:
  "match_here re s \<longleftrightarrow> length re \<le> length s \<and> list_all2 atom_ok re (take (length re) s)"
  by (induction re s rule: match_here.induct) auto

lemma match_here_Lit: "match_here (map Lit P) s = prefix P s"
proof (induction P arbitrary: s)
  case Nil
  then show ?case by simp
next
  case (Cons p P)
  then show ?case by (cases s) auto
qed

lemma match_here_append:
  assumes "list_all2 atom_ok re w"
  shows "match_here re (w @ s)"
proof -
  have "length re = length w" using assms by (rule list_all2_lengthD)
  then show ?thesis using assms by (simp add: match_here_iff)
qed

lemma occurrences_Nil: "occurrences P [] = (if P = [] then 1 else 0)"
  by (auto simp: occurrences_def)

lemma occurrences_Cons:
  "occurrences P (c # cs) = (if prefix P (c # cs) then 1 else 0) + occurrences P cs"
proof -
  have upt: "[0..<Suc (length (c # cs))] = 0 # map Suc [0..<Suc (length cs)]"
    by (simp add: upt_conv_Cons map_Suc_upt del: upt_Suc)
  have "prefix P (c # cs) \<longleftrightarrow> take (length P) (c # cs) = P"
    by (metis prefix_def append_take_drop_id append_eq_conv_conj)
  then show ?thesis
    unfolding occurrences_def upt by (simp add: filter_map comp_def)
qed

lemma match_g_XMAS: "match_g XMAS s = occurrences ''XMAS'' s"
proof (induction s rule: length_induct)
  case (1 s)
  show ?case
  proof (cases s)
    case Nil
    then show ?thesis by (simp add: XMAS_def occurrences_Nil)
  next
    case (Cons c cs)
    show ?thesis
    proof (cases "prefix ''XMAS'' s")
      case True
      then obtain r where s: "s = ''XMAS'' @ r" by (auto simp: prefix_def)
      then have "match_g XMAS r = occurrences ''XMAS'' r" using 1 by simp
      then show ?thesis
        unfolding s by (simp add: XMAS_def occurrences_Cons)
    next
      case False
      have "\<not> match_here XMAS s" using False unfolding XMAS_def match_here_Lit .
      then have "match_g XMAS s = match_g XMAS cs" using Cons by simp
      moreover have "match_g XMAS cs = occurrences ''XMAS'' cs" using 1 Cons by simp
      ultimately show ?thesis using False Cons by (simp add: occurrences_Cons)
    qed
  qed
qed

lemma match_g_SAMX: "match_g SAMX s = occurrences ''SAMX'' s"
proof (induction s rule: length_induct)
  case (1 s)
  show ?case
  proof (cases s)
    case Nil
    then show ?thesis by (simp add: SAMX_def occurrences_Nil)
  next
    case (Cons c cs)
    show ?thesis
    proof (cases "prefix ''SAMX'' s")
      case True
      then obtain r where s: "s = ''SAMX'' @ r" by (auto simp: prefix_def)
      then have "match_g SAMX r = occurrences ''SAMX'' r" using 1 by simp
      then show ?thesis
        unfolding s by (simp add: SAMX_def occurrences_Cons)
    next
      case False
      have "\<not> match_here SAMX s" using False unfolding SAMX_def match_here_Lit .
      then have "match_g SAMX s = match_g SAMX cs" using Cons by simp
      moreover have "match_g SAMX cs = occurrences ''SAMX'' cs" using 1 Cons by simp
      ultimately show ?thesis using False Cons by (simp add: occurrences_Cons)
    qed
  qed
qed

lemma foldl_add_sum_list: "foldl (\<lambda>n x. n + f x) a xs = a + sum_list (map f xs)"
  by (induction xs arbitrary: a) (auto simp: add.assoc)

text \<open>
  The matches that \<open>match_g\<close> finds are as many as a line can hold without overlap: no
  choice of disjoint matches has more of them, and the greedy scan reaches that number.
\<close>

lemma match_g_Nil_regex: "match_g [] s = Suc (length s)"
  by (induction s) auto

lemma match_g_drop:
  "(\<forall>k. match_g re (drop k s) \<le> match_g re s) \<and>
   (\<forall>k\<le>length re. match_g re s \<le> Suc (match_g re (drop k s)))"
proof (induction s rule: length_induct)
  case (1 s)
  show ?case
  proof (cases s)
    case Nil
    then show ?thesis by simp
  next
    case (Cons c cs)
    have A: "match_g re (drop k t) \<le> match_g re t" if "length t \<le> length cs" for k t
      using 1 Cons that by simp
    have B: "match_g re t \<le> Suc (match_g re (drop k t))"
      if "length t \<le> length cs" "k \<le> length re" for k t
      using 1 Cons that by simp
    have step: "match_g re cs \<le> match_g re s"
    proof (cases "match_here re s")
      case True
      then have "match_g re s = Suc (match_g re (drop (length re - 1) cs))"
        using Cons by simp
      moreover have "match_g re cs \<le> Suc (match_g re (drop (length re - 1) cs))"
        by (rule B) simp_all
      ultimately show ?thesis by simp
    next
      case False
      then show ?thesis using Cons by simp
    qed
    have "match_g re (drop k s) \<le> match_g re s" for k
    proof (cases k)
      case 0
      then show ?thesis by simp
    next
      case (Suc k')
      have "match_g re (drop k' cs) \<le> match_g re cs" by (rule A) simp
      with step show ?thesis using Suc Cons by simp
    qed
    moreover have "match_g re s \<le> Suc (match_g re (drop k s))" if k: "k \<le> length re" for k
    proof (cases k)
      case 0
      then show ?thesis by simp
    next
      case (Suc k')
      show ?thesis
      proof (cases "match_here re s")
        case True
        then have eq: "match_g re s = Suc (match_g re (drop (length re - 1) cs))"
          using Cons by simp
        have "drop (length re - 1) cs = drop (length re - 1 - k') (drop k' cs)"
          using k Suc by simp
        moreover have "match_g re (drop (length re - 1 - k') (drop k' cs)) \<le> match_g re (drop k' cs)"
          by (rule A) simp
        ultimately show ?thesis using eq Suc Cons by simp
      next
        case False
        then have "match_g re s = match_g re cs" using Cons by simp
        moreover have "match_g re cs \<le> Suc (match_g re (drop k' cs))"
          using k Suc by (intro B) simp_all
        ultimately show ?thesis using Suc Cons by simp
      qed
    qed
    ultimately show ?thesis by blast
  qed
qed

lemma match_g_drop_le: "match_g re (drop k s) \<le> match_g re s"
  using match_g_drop by blast

lemma match_g_match:
  assumes "list_all2 atom_ok re w" and "re \<noteq> []"
  shows "match_g re (w @ s) = Suc (match_g re s)"
proof -
  have len: "length w = length re" using assms(1) by (simp add: list_all2_lengthD)
  with assms(2) obtain c w' where w: "w = c # w'" by (cases w) auto
  have "match_here re (w @ s)" using assms(1) by (rule match_here_append)
  then show ?thesis using w len by auto
qed

lemma disjoint_matches_Cons:
  "disjoint_matches re s n \<Longrightarrow> disjoint_matches re (c # s) n"
proof (induction rule: disjoint_matches.cases)
  case (none re s)
  then show ?case by (simp add: disjoint_matches.none)
next
  case (more re s n w a)
  then show ?case
    using disjoint_matches.more [of re s n w "c # a"] by simp
qed

lemma disjoint_matches_greedy:
  "re \<noteq> [] \<Longrightarrow> disjoint_matches re s (match_g re s)"
proof (induction re s rule: match_g.induct)
  case (1 re)
  then show ?case by (simp add: disjoint_matches.none)
next
  case (2 re c cs)
  show ?case
  proof (cases "match_here re (c # cs)")
    case True
    let ?w = "take (length re) (c # cs)"
    have w: "list_all2 atom_ok re ?w" using True by (simp add: match_here_iff)
    have rest: "drop (length re) (c # cs) = drop (length re - 1) cs"
      using "2.prems" by (cases re) auto
    have "disjoint_matches re (drop (length re - 1) cs) (match_g re (drop (length re - 1) cs))"
      using 2 True by simp
    then have "disjoint_matches re ([] @ ?w @ drop (length re - 1) cs)
        (Suc (match_g re (drop (length re - 1) cs)))"
      using w by (rule disjoint_matches.more)
    moreover have "[] @ ?w @ drop (length re - 1) cs = c # cs"
      using rest by (metis append_Nil append_take_drop_id)
    ultimately show ?thesis using True by simp
  next
    case False
    then show ?thesis using 2 by (simp add: disjoint_matches_Cons)
  qed
qed

lemma disjoint_matches_le:
  "disjoint_matches re s n \<Longrightarrow> re \<noteq> [] \<Longrightarrow> n \<le> match_g re s"
proof (induction rule: disjoint_matches.induct)
  case (none re s)
  then show ?case by simp
next
  case (more re s n w a)
  have "Suc n \<le> match_g re (w @ s)"
    using more by (simp add: match_g_match)
  also have "\<dots> = match_g re (drop (length a) (a @ w @ s))" by simp
  also have "\<dots> \<le> match_g re (a @ w @ s)" by (rule match_g_drop_le)
  finally show ?case .
qed

lemma disjoint_matches_snoc:
  "disjoint_matches re s n \<Longrightarrow> list_all2 atom_ok re w \<Longrightarrow>
   disjoint_matches re (s @ w @ a) (Suc n)"
proof (induction rule: disjoint_matches.induct)
  case (none re s)
  have "disjoint_matches re a 0" by (rule disjoint_matches.none)
  then show ?case using none.prems by (rule disjoint_matches.more)
next
  case (more re s n v b)
  then have "disjoint_matches re (s @ w @ a) (Suc n)" by simp
  then have "disjoint_matches re (b @ v @ (s @ w @ a)) (Suc (Suc n))"
    using more.hyps(2) by (rule disjoint_matches.more)
  then show ?case by simp
qed

lemma disjoint_matches_rev:
  "disjoint_matches re s n \<Longrightarrow> disjoint_matches (rev re) (rev s) n"
proof (induction rule: disjoint_matches.induct)
  case (none re s)
  then show ?case by (rule disjoint_matches.none)
next
  case (more re s n w a)
  have "list_all2 atom_ok (rev re) (rev w)" using more.hyps(2) by simp
  with more.IH have "disjoint_matches (rev re) (rev s @ rev w @ rev a) (Suc n)"
    by (rule disjoint_matches_snoc)
  then show ?case by simp
qed

lemma greedy_count_rev_le: "re \<noteq> [] \<Longrightarrow> match_g re s \<le> match_g (rev re) (rev s)"
  using disjoint_matches_le [OF disjoint_matches_rev [OF disjoint_matches_greedy]] by simp

section \<open>Properties of the window loop\<close>

lemma upto_map_int: "[0..int k - 1] = map int [0..<k]"
proof (induction k)
  case 0
  then show ?case by simp
next
  case (Suc k)
  have "[0..int (Suc k) - 1] = [0..int k - 1] @ [int k]"
    using upto_rec2 [of 0 "int k"] by simp
  with Suc show ?case by simp
qed

lemma lodash_range_nat: "lodash_range (int k) = map int [0..<k]"
proof (cases "k = 0")
  case True
  then show ?thesis by (simp add: lodash_range_def)
next
  case False
  then have "lodash_range (int k) = [0..int k - 1]" by (simp add: lodash_range_def)
  then show ?thesis by (simp only: upto_map_int)
qed

lemma js_slice_3:
  assumes "y + 3 \<le> length r"
  shows "js_slice r (int y) (int y + 3) = [r ! y, r ! (y + 1), r ! (y + 2)]"
proof -
  have "take 3 (drop y r) = [r ! y, r ! (y + 1), r ! (y + 2)]"
    using assms by (auto simp: list_eq_iff_nth_eq less_Suc_eq numeral_3_eq_3 add.commute)
  moreover have "nat (int y + 3 - int y) = 3" by simp
  ultimately show ?thesis
    using assms by (simp add: js_slice_def Let_def min_def)
qed

lemma regex_test_window:
  "list_ex (\<lambda>regex. regex_test regex [a, b, c, LF, d, e, f, LF, g, h, i]) permutations \<longleftrightarrow>
   list_ex (\<lambda>(tl, tr, bl, br). a = tl \<and> c = tr \<and> e = CHR ''A'' \<and> g = bl \<and> i = br) templates \<and>
   list_all (\<lambda>c. c \<noteq> LF \<and> c \<noteq> CR) [b, d, f, h]"
  by (auto simp: permutations_def templates_def)

lemma js_index_int: "js_index xs (int i) = (if i < length xs then Some (xs ! i) else None)"
  by (simp add: js_index_def)

lemma window_positions_bounds:
  "(x, y) \<in> set (window_positions N) \<Longrightarrow> x + 3 \<le> N \<and> y + 3 \<le> N"
  by (auto simp: window_positions_def)

lemma grid_window:
  assumes square: "\<forall>row\<in>set rows. length row = length rows"
    and p: "p \<in> set (window_positions (length rows))"
  shows "grid rows (int (fst p)) (int (snd p)) = Inr (window_string rows p)"
proof -
  obtain x y where xy: "p = (x, y)" by (cases p)
  have b: "x + 3 \<le> length rows" "y + 3 \<le> length rows"
    using p xy window_positions_bounds by blast+
  have len: "length (rows ! k) = length rows" if "k < length rows" for k
    using square that by simp
  have i0: "js_index rows (int x + 0) = Some (rows ! x)"
    using b js_index_int [of rows x] by simp
  have i1: "js_index rows (int x + 1) = Some (rows ! (x + 1))"
    using b by (simp add: js_index_def nat_add_distrib)
  have i2: "js_index rows (int x + 2) = Some (rows ! (x + 2))"
    using b by (simp add: js_index_def nat_add_distrib)
  have s: "js_slice (rows ! k) (int y) (int y + 3) = [rows ! k ! y, rows ! k ! (y + 1), rows ! k ! (y + 2)]"
    if "k < length rows" for k
    using b len [OF that] by (intro js_slice_3) simp
  have "grid rows (int x) (int y) = Inr (window_string rows (x, y))"
    unfolding grid_def i0 i1 i2 using b by (simp add: s window_string_def)
  then show ?thesis using xy by simp
qed

lemma foldl_window_step:
  assumes "\<forall>p\<in>set ps. grid rows (int (fst p)) (int (snd p)) = Inr (g p)"
  shows "foldl (window_step rows) (Inr n) (map (\<lambda>p. (int (fst p), int (snd p))) ps) =
    Inr (n + length (filter (\<lambda>p. list_ex (\<lambda>regex. regex_test regex (g p)) permutations) ps))"
  using assms
proof (induction ps arbitrary: n)
  case Nil
  then show ?case by simp
next
  case (Cons p ps)
  then show ?case by (simp add: window_step_def)
qed

lemma loop_positions:
  assumes "2 \<le> N"
  shows "concat (map (\<lambda>x. map (\<lambda>y. (x, y)) (lodash_range (int N - 2))) (lodash_range (int N - 2))) =
    map (\<lambda>p. (int (fst p), int (snd p))) (window_positions N)"
proof -
  have "int N - 2 = int (N - 2)" using assms by simp
  then have r: "lodash_range (int N - 2) = map int [0..<N - 2]"
    by (simp only: lodash_range_nat)
  show ?thesis
    unfolding r window_positions_def List.product_concat_map
    by (simp add: map_concat comp_def)
qed

lemma window_string_match:
  "list_ex (\<lambda>regex. regex_test regex (window_string rows p)) permutations \<longleftrightarrow>
   corners_match rows p \<and> edges_plain rows p"
proof -
  obtain x y where "p = (x, y)" by (cases p)
  then show ?thesis
    unfolding window_string_def corners_match_def edges_plain_def
    by (simp only: prod.case regex_test_window)
qed

section \<open>Day 4: the claims\<close>

text \<open>
  C1: for a square grid of size \<open>N\<close>, which is at least 1, the line extraction of
  \<open>part1Solution\<close> yields \<open>N\<close> rows, \<open>N\<close> columns and \<open>2N - 1\<close> diagonals in each of
  the two directions.
\<close>

theorem line_extraction_counts:
  assumes "js_split LF input = rows" and "length rows = N"
    and "\<forall>row\<in>set rows. length row = N"
  shows "1 \<le> N \<and> length rows = N \<and> length (transposed rows) = N \<and>
    length (diag1 rows) = 2 * N - 1 \<and> length (diag2 rows) = 2 * N - 1"
proof -
  have "rows \<noteq> []" using assms(1) js_split_not_Nil by metis
  with assms(2) have "1 \<le> N" by (cases rows) auto
  moreover have "length (transposed rows) = N"
    using assms(2,3) by (simp add: transposed_square)
  ultimately show ?thesis
    using assms(2) by (simp add: length_diag1 length_diag2 mult.commute)
qed

theorem line_extraction_counts_witness:
  "js_split LF ''ABC\<newline>DEF\<newline>GHI'' = [''ABC'', ''DEF'', ''GHI''] \<and>
   list_all (\<lambda>row. length row = 3) [''ABC'', ''DEF'', ''GHI''] \<and>
   length (transposed [''ABC'', ''DEF'', ''GHI'']) = 3 \<and>
   length (diag1 [''ABC'', ''DEF'', ''GHI'']) = 5 \<and>
   length (diag2 [''ABC'', ''DEF'', ''GHI'']) = 5"
  using line_extraction_counts [of "''ABC\<newline>DEF\<newline>GHI''" "[''ABC'', ''DEF'', ''GHI'']" 3]
  by simp

text \<open>
  C2: what a line adds to the count is the number of all occurrences of \<open>XMAS\<close> in it
  plus the number of all occurrences of \<open>XMAS\<close> reversed, overlapping occurrences
  counted each, and \<open>part1Solution\<close> returns the sum of these over the rows, the columns
  and the diagonals of both directions.
\<close>

theorem pattern_counter:
  "line_count line = occurrences ''XMAS'' line + occurrences (rev ''XMAS'') line \<and>
   part1Solution_day4 input =
     sum_list (map line_count (js_split LF input)) +
     sum_list (map line_count (transposed (js_split LF input))) +
     sum_list (map line_count (diag1 (js_split LF input))) +
     sum_list (map line_count (diag2 (js_split LF input)))"
proof
  show "line_count line = occurrences ''XMAS'' line + occurrences (rev ''XMAS'') line"
    by (simp add: line_count_def match_g_XMAS match_g_SAMX)
  show "part1Solution_day4 input =
     sum_list (map line_count (js_split LF input)) +
     sum_list (map line_count (transposed (js_split LF input))) +
     sum_list (map line_count (diag1 (js_split LF input))) +
     sum_list (map line_count (diag2 (js_split LF input)))"
    by (simp add: part1Solution_day4_def foldl_add_sum_list Let_def)
qed

text \<open>C3: on the example grid, \<open>part1Solution\<close> of day 4 returns 18.\<close>

theorem part1Solution_example: "part1Solution_day4 example = 18"
  by code_simp

text \<open>
  C4, as stated, fails on a grid with a line terminator at an edge midpoint: \<open>.\<close> does
  not match it. On \<open>cr_grid\<close> the one window agrees with the first template at the
  corners and the centre, and \<open>part2Solution\<close> returns 0.
\<close>

theorem wildcard_count_counterexample:
  "part2Solution_day4 cr_grid = Inr 0 \<and> wildcard_count (js_split LF cr_grid) = 1"
  by code_simp

text \<open>
  C4, amended: for every square grid whose size is not 1, \<open>part2Solution\<close> returns the
  number of 3x3 windows, the top-left corner ranging over all positions at which a window
  fits, whose corners and centre agree with one of the four templates and whose four edge
  midpoints are not line terminators.
\<close>

theorem part2Solution_template_count:
  assumes "js_split LF input = rows"
    and "\<forall>row\<in>set rows. length row = length rows"
    and "length rows \<noteq> 1"
  shows "part2Solution_day4 input = Inr (template_count rows)"
proof -
  have "rows \<noteq> []" using assms(1) js_split_not_Nil by metis
  then have "0 < length rows" by simp
  with assms(3) have N: "2 \<le> length rows" by arith
  have "part2Solution_day4 input =
      foldl (window_step rows) (Inr 0)
        (map (\<lambda>p. (int (fst p), int (snd p))) (window_positions (length rows)))"
    using assms(1) by (simp add: part2Solution_day4_def loop_positions [OF N])
  also have "\<dots> = Inr (0 + length (filter
        (\<lambda>p. list_ex (\<lambda>regex. regex_test regex (window_string rows p)) permutations)
        (window_positions (length rows))))"
    using assms(2) by (intro foldl_window_step) (simp add: grid_window)
  also have "\<dots> = Inr (template_count rows)"
    by (simp add: template_count_def window_string_match)
  finally show ?thesis .
qed

theorem part2Solution_template_count_witness:
  "js_split LF ''MAS\<newline>.A.\<newline>MXS'' = [''MAS'', ''.A.'', ''MXS''] \<and>
   list_all (\<lambda>row. length row = 3) [''MAS'', ''.A.'', ''MXS''] \<and>
   template_count [''MAS'', ''.A.'', ''MXS''] = 1 \<and>
   part2Solution_day4 ''MAS\<newline>.A.\<newline>MXS'' = Inr 1"
proof -
  have s: "js_split LF ''MAS\<newline>.A.\<newline>MXS'' = [''MAS'', ''.A.'', ''MXS'']"
    by code_simp
  have t: "template_count [''MAS'', ''.A.'', ''MXS''] = 1"
    by code_simp
  have "part2Solution_day4 ''MAS\<newline>.A.\<newline>MXS'' = Inr (template_count [''MAS'', ''.A.'', ''MXS''])"
    using part2Solution_template_count [OF s] by simp
  with s t show ?thesis by simp
qed

text \<open>C5: on the example grid, \<open>part2Solution\<close> of day 4 returns 9.\<close>

theorem part2Solution_example: "part2Solution_day4 example = Inr 9"
  by code_simp

text \<open>
  C6: a 1x1 grid has one row, one column and one diagonal of length 1 in each direction.
  \<open>part2Solution\<close> does not return 0 on it: \<open>_.range(-1)\<close> is \<open>[0]\<close>, the loop body runs
  once and reads \<open>text[1]\<close>, which is \<open>undefined\<close>, so the call of \<open>slice\<close> raises.
\<close>

theorem one_by_one:
  assumes "c \<noteq> LF"
  shows "js_split LF [c] = [[c]] \<and> transposed [[c]] = [[c]] \<and> diag1 [[c]] = [[c]] \<and> diag2 [[c]] = [[c]]
    \<and> part2Solution_day4 [c] = Inl TypeError"
  using assms
  by (simp add: transposed_def lodash_zip_def js_index_def diag1_def diag2_def lodash_range_1 lodash_range_m1
      lodash_rangeRight_def in_grid_def diag1_at_def diag2_at_def part2Solution_day4_def window_step_def grid_def)

theorem one_by_one_witness:
  "js_split LF ''X'' = [''X''] \<and> transposed [''X''] = [''X''] \<and> diag1 [''X''] = [''X''] \<and>
   diag2 [''X''] = [''X''] \<and> part2Solution_day4 ''X'' = Inl TypeError"
  using one_by_one [of "CHR ''X''"] by simp

text \<open>
  C7: on a square grid, transposing the columns that the line extraction produced gives
  the grid back.
\<close>

theorem transposed_transposed:
  assumes "\<forall>row\<in>set rows. length row = length rows"
  shows "transposed (transposed rows) = rows"
proof -
  let ?cols = "map (\<lambda>j. map (\<lambda>row. row ! j) rows) [0..<length rows]"
  have cols: "transposed rows = ?cols"
    using assms by (rule transposed_square)
  have "\<forall>col\<in>set ?cols. length col = length ?cols" by simp
  then have "transposed ?cols = map (\<lambda>i. map (\<lambda>col. col ! i) ?cols) [0..<length ?cols]"
    by (rule transposed_square)
  also have "\<dots> = rows"
  proof (rule nth_equalityI)
    show "length (map (\<lambda>i. map (\<lambda>col. col ! i) ?cols) [0..<length ?cols]) = length rows"
      by simp
  next
    fix i
    assume "i < length (map (\<lambda>i. map (\<lambda>col. col ! i) ?cols) [0..<length ?cols])"
    then have i: "i < length rows" by simp
    then have len: "length (rows ! i) = length rows" using assms by simp
    have "map (\<lambda>col. col ! i) ?cols = map (\<lambda>j. rows ! i ! j) [0..<length rows]"
      using i by (simp add: comp_def)
    also have "\<dots> = rows ! i"
      using len by (metis map_nth)
    finally show "map (\<lambda>i. map (\<lambda>col. col ! i) ?cols) [0..<length ?cols] ! i = rows ! i"
      using i by simp
  qed
  finally show ?thesis using cols by simp
qed

theorem transposed_transposed_witness:
  "transposed [''ABC'', ''DEF'', ''GHI''] = [''ADG'', ''BEH'', ''CFI''] \<and>
   transposed [''ADG'', ''BEH'', ''CFI''] = [''ABC'', ''DEF'', ''GHI'']"
proof -
  have t: "transposed [''ABC'', ''DEF'', ''GHI''] = [''ADG'', ''BEH'', ''CFI'']"
    by code_simp
  have "transposed (transposed [''ABC'', ''DEF'', ''GHI'']) = [''ABC'', ''DEF'', ''GHI'']"
    using transposed_transposed [of "[''ABC'', ''DEF'', ''GHI'']"] by simp
  with t show ?thesis by simp
qed

text \<open>
  C8: for every line and every pattern (a sequence of literal characters and \<open>.\<close>), the
  pattern-counting step counts as many matches of the pattern in the line as of the
  reversed pattern in the reversed line.
\<close>

theorem match_g_rev: "match_g re line = match_g (rev re) (rev line)"
proof (cases "re = []")
  case True
  then show ?thesis by (simp add: match_g_Nil_regex)
next
  case False
  have "match_g re line \<le> match_g (rev re) (rev line)"
    using False by (rule greedy_count_rev_le)
  moreover have "match_g (rev re) (rev line) \<le> match_g (rev (rev re)) (rev (rev line))"
    using False by (intro greedy_count_rev_le) simp
  ultimately show ?thesis by simp
qed

section \<open>Day 5: the claims\<close>

lemma orders_not_Nil: "pages \<in> set (orders Number rawOrders) \<Longrightarrow> pages \<noteq> []"
  by (auto simp: orders_def js_split_not_Nil)

lemma in_order_iff:
  "in_order rs pages \<longleftrightarrow> (\<forall>i. Suc i < length pages \<longrightarrow> \<not> violation rs pages i (Suc i))"
proof -
  have idx: "js_index pages (int i + 1) = Some (pages ! Suc i)" if "Suc i < length pages" for i
    using that by (simp add: js_index_def nat_add_distrib)
  have "in_order rs pages \<longleftrightarrow>
    (\<forall>i<length pages - 1.
       case rs (js_index pages (int i + 1)) of None \<Rightarrow> True
       | Some after \<Rightarrow> Some (pages ! i) \<notin> set after)"
    by (simp add: in_order_def list_all_length nth_butlast)
  also have "\<dots> \<longleftrightarrow> (\<forall>i. Suc i < length pages \<longrightarrow> \<not> violation rs pages i (Suc i))"
    by (auto simp: violation_def idx less_diff_conv split: option.splits)
  finally show ?thesis .
qed

text \<open>
  C9: \<open>part1Solution\<close> of day 5 sums the middle elements of the lists that pass its
  filter, and a list passes if and only if no adjacent pair breaks a rule: for every
  index \<open>i\<close>, the entry of the rule map for \<open>pages[i+1]\<close> is absent or does not contain
  \<open>pages[i]\<close>. Pairs that are not adjacent are not checked: with the rules \<open>3|1\<close> and
  \<open>1|2\<close>, which are not transitively closed, the list \<open>1,2,3\<close> breaks \<open>3|1\<close> at the
  positions 0 and 2, passes the filter, and its middle element 2 is the result.
\<close>

theorem adjacent_pairs_only:
  "(in_order rs pages \<longleftrightarrow>
      (\<forall>i. Suc i < length pages \<longrightarrow>
         (case rs (Some (pages ! Suc i)) of
            None \<Rightarrow> True
          | Some after \<Rightarrow> Some (pages ! i) \<notin> set after))) \<and>
   part1Solution_day5 Number rawRules rawOrders =
     foldl (\<lambda>a b. a + b) 0
       (map middle (filter (in_order (rules Number rawRules)) (orders Number rawOrders))) \<and>
   (violation (rules decimal ''3|1\<newline>1|2'') [1, 2, 3] 0 2 \<and>
    in_order (rules decimal ''3|1\<newline>1|2'') [1, 2, 3] \<and>
    part1Solution_day5 decimal ''3|1\<newline>1|2'' ''1,2,3'' = 2)"
proof (intro conjI)
  show "in_order rs pages \<longleftrightarrow>
      (\<forall>i. Suc i < length pages \<longrightarrow>
         (case rs (Some (pages ! Suc i)) of
            None \<Rightarrow> True
          | Some after \<Rightarrow> Some (pages ! i) \<notin> set after))"
    unfolding in_order_iff
    by (auto simp: violation_def split: option.splits)
  show "part1Solution_day5 Number rawRules rawOrders =
     foldl (\<lambda>a b. a + b) 0
       (map middle (filter (in_order (rules Number rawRules)) (orders Number rawOrders)))"
    by (simp add: part1Solution_day5_def)
  show "violation (rules decimal ''3|1\<newline>1|2'') [1, 2, 3] 0 2"
    by code_simp
  show "in_order (rules decimal ''3|1\<newline>1|2'') [1, 2, 3]"
    by code_simp
  show "part1Solution_day5 decimal ''3|1\<newline>1|2'' ''1,2,3'' = 2"
    by code_simp
qed

theorem adjacent_pairs_only_witness:
  "Suc 0 < length [53, 47 :: nat] \<and>
   rules decimal ''47|53'' (Some ([53, 47] ! Suc 0)) = Some [Some ([53, 47] ! 0)] \<and>
   \<not> in_order (rules decimal ''47|53'') [53, 47]"
proof -
  have r: "rules decimal ''47|53'' (Some 47) = Some [Some 53]"
    by code_simp
  have "\<not> in_order (rules decimal ''47|53'') [53, 47]"
    using adjacent_pairs_only [of "rules decimal ''47|53''" "[53, 47]"] r
    by (auto split: option.splits)
  then show ?thesis using r by simp
qed

text \<open>
  C10: an order list passes the filter of \<open>part2Solution\<close> if and only if it does not pass
  the filter of \<open>part1Solution\<close>, so the lists that \<open>part2Solution\<close> sorts and sums are
  those that \<open>part1Solution\<close> leaves out, and every list is summed by exactly one of the
  two.
\<close>

theorem filters_complementary:
  "(out_of_order rs pages \<longleftrightarrow> \<not> in_order rs pages) \<and>
   part1Solution_day5 Number rawRules rawOrders =
     foldl (\<lambda>a b. a + b) 0
       (map middle
         (filter (in_order (rules Number rawRules)) (orders Number rawOrders))) \<and>
   part2Solution_day5 Number js_sort rawRules rawOrders =
     foldl (\<lambda>a b. a + b) 0
       (map (\<lambda>pages. middle (js_sort (compare_pages (rules Number rawRules)) pages))
         (filter (\<lambda>pages. \<not> in_order (rules Number rawRules) pages) (orders Number rawOrders)))"
proof -
  have c: "out_of_order = (\<lambda>rs pages. \<not> in_order rs pages)"
    by (simp add: out_of_order_def in_order_def fun_eq_iff)
  show ?thesis
    unfolding part1Solution_day5_def part2Solution_day5_def c by (simp add: comp_def)
qed

end
